theory Spec2Isabelle
  imports Complex_Main "HOL-Library.Multiset"
begin

section \<open>Parking finder: data model\<close>

text \<open>
  The repository holds a browser client in two copies (\<^verbatim>\<open>src/app.js\<close> and the longer
  \<^verbatim>\<open>src/unnamed/part_000\<close>) and a small HTTP service
  (\<^verbatim>\<open>src/.idea/backend/server.js\<close>).

  JavaScript numbers are IEEE doubles. They are idealised here: the integer
  fields of a lot are \<open>int\<close>, coordinates and distances are \<open>real\<close>, and where a
  division by zero or a value outside the domain of a function would give
  \<^verbatim>\<open>NaN\<close> or an infinity the model says so explicitly. Rounding errors of
  the floating-point operations are not modelled.
\<close>

subsection \<open>Numbers that may be NaN or infinite\<close>

datatype jsnum = Fin rat | PInf | NInf | NaN

text \<open>\<^verbatim>\<open>x / y\<close> on numbers: a zero divisor gives \<^verbatim>\<open>NaN\<close> for \<^verbatim>\<open>0/0\<close> and an
  infinity otherwise (the sign of zero is not tracked: every zero is \<^verbatim>\<open>+0\<close>).\<close>

fun js_div :: "jsnum \<Rightarrow> jsnum \<Rightarrow> jsnum" where
  "js_div (Fin a) (Fin b) =
     (if b = 0 then (if a = 0 then NaN else if 0 < a then PInf else NInf)
      else Fin (a / b))"
| "js_div (Fin a) PInf = Fin 0"
| "js_div (Fin a) NInf = Fin 0"
| "js_div PInf (Fin b) = (if 0 \<le> b then PInf else NInf)"
| "js_div NInf (Fin b) = (if 0 \<le> b then NInf else PInf)"
| "js_div _ _ = NaN"

fun js_mul :: "jsnum \<Rightarrow> jsnum \<Rightarrow> jsnum" where
  "js_mul (Fin a) (Fin b) = Fin (a * b)"
| "js_mul PInf (Fin b) = (if b = 0 then NaN else if 0 < b then PInf else NInf)"
| "js_mul NInf (Fin b) = (if b = 0 then NaN else if 0 < b then NInf else PInf)"
| "js_mul (Fin a) PInf = (if a = 0 then NaN else if 0 < a then PInf else NInf)"
| "js_mul (Fin a) NInf = (if a = 0 then NaN else if 0 < a then NInf else PInf)"
| "js_mul PInf PInf = PInf"
| "js_mul NInf NInf = PInf"
| "js_mul PInf NInf = NInf"
| "js_mul NInf PInf = NInf"
| "js_mul _ _ = NaN"

text \<open>\<^verbatim>\<open>Math.round\<close>: the nearest integer, a tie going up; \<^verbatim>\<open>NaN\<close> and the
  infinities are returned as they are.\<close>

fun js_round :: "jsnum \<Rightarrow> jsnum" where
  "js_round (Fin x) = Fin (of_int \<lfloor>x + 1 / 2\<rfloor>)"
| "js_round v = v"

subsection \<open>Points, places and lots\<close>

text \<open>
  The distance functions read only \<^verbatim>\<open>lat\<close> and \<^verbatim>\<open>lng\<close> of their arguments and
  are called on bare points, on places and on lots alike; the records extend
  one another so that one definition covers the three.
  A place is \<^verbatim>\<open>{ name, lat, lng }\<close>; a lot of the client is
  \<^verbatim>\<open>{ id, name, lat, lng, capacity, available_spots, price, updated_at }\<close>; a record
  of the service is \<^verbatim>\<open>{ id, name, lat, lng, capacity, available }\<close>.
\<close>

record point =
  lat :: real
  lng :: real

record place = point +
  name :: string

record carpark = place +
  lid :: string
  capacity :: int

record lot = carpark +
  available_spots :: int
  price :: "string option"
  updated_at :: string

record park = carpark +
  available :: int

section \<open>Derived metrics: occupancy\<close>

text \<open>
  \<^verbatim>\<open>renderCharts\<close> of \<^verbatim>\<open>src/unnamed/part_000\<close>, line 313:
  \<^verbatim>\<open>Math.round((l.capacity - l.available_spots) / Math.max(1, l.capacity) * 100)\<close>.
  The quotient and the product are exact here. The doubles of the code can
  differ from them by a rounding error, which decides the rounded result only
  next to a tie: capacity 40 with 17 available is 57.5 exactly and rounds to
  58, where the doubles give 57.49999999999999 and 57. Where the divisor is
  zero, and at the inputs used below, the two agree.
\<close>

definition occupancy_pct :: "int \<Rightarrow> int \<Rightarrow> jsnum" where
  "occupancy_pct cap avail =
     js_round (js_mul (js_div (Fin (of_int (cap - avail))) (Fin (of_int (max 1 cap)))) (Fin 100))"

text \<open>
  \<^verbatim>\<open>renderCharts\<close> of \<^verbatim>\<open>src/app.js\<close>, line 171:
  \<^verbatim>\<open>Math.round((l.capacity - l.available_spots) / l.capacity * 100)\<close>, the divisor
  not clamped.
\<close>

definition occupancy_pct_unclamped :: "int \<Rightarrow> int \<Rightarrow> jsnum" where
  "occupancy_pct_unclamped cap avail =
     js_round (js_mul (js_div (Fin (of_int (cap - avail))) (Fin (of_int cap))) (Fin 100))"

definition renderCharts_occ :: "lot list \<Rightarrow> jsnum list" where
  "renderCharts_occ lots = map (\<lambda>l. occupancy_pct (capacity l) (available_spots l)) lots"

definition renderCharts_occ_app :: "lot list \<Rightarrow> jsnum list" where
  "renderCharts_occ_app lots =
     map (\<lambda>l. occupancy_pct_unclamped (capacity l) (available_spots l)) lots"

section \<open>GeoMath\<close>

text \<open>
  \<^verbatim>\<open>toRad\<close> and \<^verbatim>\<open>haversine\<close> of the mock data source, and \<^verbatim>\<open>distanceMeters\<close>
  of the client (the same formula, written twice in the source):
  \<^verbatim>\<open>h = sin(dLat/2)**2 + cos(la1)*cos(la2)*sin(dLng/2)**2; return 2*R*asin(sqrt(h))\<close>
  with \<^verbatim>\<open>R = 6371000\<close>.
\<close>

definition toRad :: "real \<Rightarrow> real" where
  "toRad d = d * pi / 180"



definition distanceMeters :: "'a point_scheme \<Rightarrow> 'b point_scheme \<Rightarrow> real" where
  "distanceMeters a b =
     (let dLat = toRad (lat b - lat a); dLng = toRad (lng b - lng a);
          la1 = toRad (lat a); la2 = toRad (lat b);
          h = (sin (dLat / 2))\<^sup>2 + cos la1 * cos la2 * (sin (dLng / 2))\<^sup>2
      in 2 * 6371000 * arcsin (sqrt h))"



section \<open>The mock data source\<close>

text \<open>The lots of the mock, each stamped with the time \<open>t0\<close> at which the module is loaded.\<close>

definition mock_lots :: "string \<Rightarrow> lot list" where
  "mock_lots t0 =
     [\<lparr>lat = - 37.8173, lng = 144.9655, name = ''Flinders Lane Car Park'', lid = ''CP-101'',
        capacity = 220, available_spots = 88, price = Some ''$3/hr'', updated_at = t0\<rparr>,
      \<lparr>lat = - 37.8128, lng = 144.9675, name = ''Russell St Car Park'', lid = ''CP-102'',
        capacity = 160, available_spots = 47, price = Some ''$4/hr'', updated_at = t0\<rparr>,
      \<lparr>lat = - 37.8106, lng = 144.9652, name = ''QV Car Park'', lid = ''CP-103'',
        capacity = 120, available_spots = 12, price = Some ''$5/hr'', updated_at = t0\<rparr>,
      \<lparr>lat = - 37.8779, lng = 145.0449, name = ''Derby Rd Car Park'', lid = ''CP-201'',
        capacity = 180, available_spots = 61, price = Some ''$3/hr'', updated_at = t0\<rparr>,
      \<lparr>lat = - 37.8765, lng = 145.0431, name = ''Caulfield Plaza Car Park'', lid = ''CP-202'',
        capacity = 140, available_spots = 9, price = Some ''$3/hr'', updated_at = t0\<rparr>]"

subsection \<open>parkingNear\<close>


subsection \<open>pushUpdates\<close>

text \<open>\<^verbatim>\<open>lots.findIndex(pred)\<close>: the first index whose element satisfies the predicate,
  \<open>None\<close> for the source's \<open>-1\<close>.\<close>

fun findIndex :: "('a \<Rightarrow> bool) \<Rightarrow> 'a list \<Rightarrow> nat option" where
  "findIndex P [] = None"
| "findIndex P (x # xs) =
     (if P x then Some 0 else (case findIndex P xs of None \<Rightarrow> None | Some i \<Rightarrow> Some (Suc i)))"

text \<open>
  \<^verbatim>\<open>
  pushUpdates(ids){ const changes=[]; for (const id of ids){
      const i=lots.findIndex(l=>l.id===id); if (i===-1) continue;
      const delta=Math.floor((Math.random()-0.5)*8);
      lots[i].available_spots=Math.max(0,Math.min(lots[i].capacity,lots[i].available_spots+delta));
      lots[i].updated_at=new Date().toISOString(); changes.push({ ...lots[i] }); }
    return changes; }
  \<close>
  The store is passed in and returned. \<^verbatim>\<open>Math.random\<close> and the clock are the
  two functions \<open>rnd\<close> and \<open>now\<close>, read at the number \<open>k\<close> of updates made so
  far; no bound on the random number is assumed.
\<close>

definition perturb :: "rat \<Rightarrow> int" where
  "perturb r = \<lfloor>(r - 1 / 2) * 8\<rfloor>"

definition update_lot :: "int \<Rightarrow> string \<Rightarrow> lot \<Rightarrow> lot" where
  "update_lot delta t l =
     l\<lparr>available_spots := max 0 (min (capacity l) (available_spots l + delta)),
       updated_at := t\<rparr>"

fun pushUpdates_loop ::
  "(nat \<Rightarrow> rat) \<Rightarrow> (nat \<Rightarrow> string) \<Rightarrow> nat \<Rightarrow> lot list \<Rightarrow> string list \<Rightarrow> lot list
     \<Rightarrow> lot list \<times> lot list" where
  "pushUpdates_loop rnd now k lots [] changes = (lots, changes)"
| "pushUpdates_loop rnd now k lots (i # ids) changes =
     (case findIndex (\<lambda>l. lid l = i) lots of
        None \<Rightarrow> pushUpdates_loop rnd now k lots ids changes
      | Some j \<Rightarrow>
          (let l' = update_lot (perturb (rnd k)) (now k) (lots ! j)
           in pushUpdates_loop rnd now (Suc k) (lots[j := l']) ids (changes @ [l'])))"

text \<open>The store after the call, and the returned list \<^verbatim>\<open>changes\<close>.\<close>

definition pushUpdates ::
  "(nat \<Rightarrow> rat) \<Rightarrow> (nat \<Rightarrow> string) \<Rightarrow> lot list \<Rightarrow> string list \<Rightarrow> lot list \<times> lot list" where
  "pushUpdates rnd now lots ids = pushUpdates_loop rnd now 0 lots ids []"

definition in_range :: "lot \<Rightarrow> bool" where
  "in_range l = (0 \<le> available_spots l \<and> available_spots l \<le> capacity l)"

text \<open>Two lots that differ at most in \<^verbatim>\<open>available_spots\<close> and \<^verbatim>\<open>updated_at\<close>.\<close>

definition frame :: "lot \<Rightarrow> lot \<Rightarrow> bool" where
  "frame l l' = (l' = l\<lparr>available_spots := available_spots l', updated_at := updated_at l'\<rparr>)"

section \<open>The HTTP service\<close>

subsection \<open>Strings\<close>

text \<open>
  A string of the service is its sequence of UTF-16 code units, each an
  integer. The string literals of the source are ASCII; they are
  written as HOL strings and embedded with \<open>js\<close>.

  White space, for \<^verbatim>\<open>trim\<close> and for the pattern \<^verbatim>\<open>\s\<close>, is what ECMAScript
  defines: tab, line feed, vertical tab, form feed, carriage return, space,
  U+00A0, U+1680, U+2000 to U+200A, U+2028, U+2029, U+202F, U+205F, U+3000 and
  U+FEFF.

  \<^verbatim>\<open>toLowerCase\<close> is the Unicode case conversion of the platform. It is a
  parameter \<open>lower\<close> of the model, of which nothing is assumed.
  \<open>toLowerCase_ascii\<close> is that conversion on strings whose letters are all
  ASCII; it stands for \<open>lower\<close> where an example needs a value, on such
  strings only.
\<close>

type_synonym jsstring = "int list"

definition js :: "string \<Rightarrow> jsstring" where
  "js s = map of_char s"

definition toLowerCase_ascii :: "jsstring \<Rightarrow> jsstring" where
  "toLowerCase_ascii s = map (\<lambda>u. if 65 \<le> u \<and> u \<le> 90 then u + 32 else u) s"

definition is_space :: "int \<Rightarrow> bool" where
  "is_space u =
     (u \<in> set [0x09, 0x0A, 0x0B, 0x0C, 0x0D, 0x20, 0xA0, 0x1680, 0x2028, 0x2029, 0x202F,
               0x205F, 0x3000, 0xFEFF]
      \<or> (0x2000 \<le> u \<and> u \<le> 0x200A))"

definition trim :: "jsstring \<Rightarrow> jsstring" where
  "trim s = rev (dropWhile is_space (rev (dropWhile is_space s)))"

text \<open>\<^verbatim>\<open>s.split(/\s+/)\<close>: the pieces between the maximal runs of white space; a
  leading or trailing run gives an empty first or last piece.\<close>

function split_ws :: "jsstring \<Rightarrow> jsstring list" where
  "split_ws s =
     (let tok = takeWhile (\<lambda>c. \<not> is_space c) s; rest = dropWhile (\<lambda>c. \<not> is_space c) s
      in if rest = [] then [tok] else tok # split_ws (dropWhile is_space rest))"
  by pat_completeness auto
termination
proof (relation "measure length")
  show "wf (measure length)"
    by simp
next
  fix s :: jsstring and tok rest
  assume rest: "rest = dropWhile (\<lambda>c. \<not> is_space c) s" and ne: "rest \<noteq> []"
  from ne obtain c cs where c: "rest = c # cs"
    by (cases rest) auto
  with rest have "dropWhile (\<lambda>c. \<not> is_space c) s = c # cs"
    by simp
  then have "is_space c"
    by (simp add: dropWhile_eq_Cons_conv)
  with c have "length (dropWhile is_space rest) \<le> length cs"
    by (simp add: length_dropWhile_le)
  also have "length cs < length rest"
    using c by simp
  also have "length rest \<le> length s"
    using rest by (simp add: length_dropWhile_le)
  finally show "(dropWhile is_space rest, s) \<in> measure length"
    by simp
qed

declare split_ws.simps [simp del]

text \<open>\<^verbatim>\<open>q.split(/\s+/).filter(Boolean)\<close>: the empty pieces are dropped.\<close>

definition tokens :: "jsstring \<Rightarrow> jsstring list" where
  "tokens q = filter (\<lambda>t. t \<noteq> []) (split_ws q)"

fun startsWith :: "'a list \<Rightarrow> 'a list \<Rightarrow> bool" where
  "startsWith s [] = True"
| "startsWith [] (c # t) = False"
| "startsWith (d # s) (c # t) = (d = c \<and> startsWith s t)"

text \<open>\<^verbatim>\<open>s.includes(t)\<close>: \<open>t\<close> occurs in \<open>s\<close> as a contiguous piece.\<close>

fun includes_str :: "'a list \<Rightarrow> 'a list \<Rightarrow> bool" where
  "includes_str [] t = (t = [])"
| "includes_str (d # s) t = (startsWith (d # s) t \<or> includes_str s t)"

text \<open>
  The words of a string, said without the code above: \<open>t\<close> is a word of \<open>s\<close>
  if it is not empty, holds no white space, occurs in \<open>s\<close>, and is bounded
  on each side by white space or by the end of \<open>s\<close>.
\<close>

definition spec_token :: "jsstring \<Rightarrow> jsstring \<Rightarrow> bool" where
  "spec_token s t =
     (t \<noteq> [] \<and> \<not> list_ex is_space t \<and>
      (\<exists>pre post. s = pre @ t @ post \<and>
         (pre = [] \<or> is_space (last pre)) \<and> (post = [] \<or> is_space (hd post))))"

subsection \<open>GET /api/v1/parking\<close>

definition fixture :: "park list" where
  "fixture =
     [\<lparr>lat = - 37.8183, lng = 144.9671, name = ''Flinders St Car Park'',
        lid = ''PARK001'', capacity = 200, available = 35\<rparr>,
      \<lparr>lat = - 37.8179, lng = 144.9691, name = ''Fed Square Parking'',
        lid = ''PARK002'', capacity = 150, available = 50\<rparr>,
      \<lparr>lat = - 37.8103, lng = 144.9643, name = ''QV Melbourne Parking'',
        lid = ''PARK003'', capacity = 500, available = 120\<rparr>,
      \<lparr>lat = - 37.8107, lng = 144.9626, name = ''Melbourne Central CP'',
        lid = ''PARK004'', capacity = 450, available = 80\<rparr>,
      \<lparr>lat = - 37.8203, lng = 144.9657, name = ''Southgate Car Park'',
        lid = ''PARK005'', capacity = 300, available = 60\<rparr>]"

text \<open>\<^verbatim>\<open>Math.atan2(y, x)\<close> on numbers.\<close>

definition atan2 :: "real \<Rightarrow> real \<Rightarrow> real" where
  "atan2 y x =
     (if 0 < x then arctan (y / x)
      else if x < 0 then (if 0 \<le> y then arctan (y / x) + pi else arctan (y / x) - pi)
      else if 0 < y then pi / 2 else if y < 0 then - pi / 2 else 0)"

text \<open>
  The distance of the radius filter, \<open>None\<close> where a square root of a negative
  number makes it \<^verbatim>\<open>NaN\<close>:
  \<^verbatim>\<open>
  const dLat = toRad(p.lat - lat0); const dLng = toRad(p.lng - lng0);
  const a = Math.sin(dLat/2)**2 + Math.cos(toRad(lat0))*Math.cos(toRad(p.lat))*Math.sin(dLng/2)**2;
  const c = 2 * Math.atan2(Math.sqrt(a), Math.sqrt(1-a));
  const dist = R * c;
  \<close>
\<close>

definition service_dist :: "real \<Rightarrow> real \<Rightarrow> park \<Rightarrow> real option" where
  "service_dist lat0 lng0 p =
     (let dLat = toRad (lat p - lat0); dLng = toRad (lng p - lng0);
          a = (sin (dLat / 2))\<^sup>2 + cos (toRad lat0) * cos (toRad (lat p)) * (sin (dLng / 2))\<^sup>2
      in if a < 0 \<or> 1 - a < 0 then None
         else Some (6371000 * (2 * atan2 (sqrt a) (sqrt (1 - a)))))"

text \<open>
  A query parameter is a string or absent. \<^verbatim>\<open>parseFloat\<close> and \<^verbatim>\<open>Number\<close> belong
  to the platform and are parameters \<open>pf\<close> and \<open>num\<close> of the model; \<open>None\<close> is
  their \<^verbatim>\<open>NaN\<close>, and a comparison with \<^verbatim>\<open>NaN\<close> is false. The default
  \<^verbatim>\<open>radius = 900\<close> applies when the parameter is absent.
\<close>

definition radius_number :: "(jsstring \<Rightarrow> real option) \<Rightarrow> jsstring option \<Rightarrow> real option" where
  "radius_number num radius = (case radius of None \<Rightarrow> Some 900 | Some x \<Rightarrow> num x)"

definition within_radius ::
  "(jsstring \<Rightarrow> real option) \<Rightarrow> (jsstring \<Rightarrow> real option) \<Rightarrow> jsstring \<Rightarrow> jsstring
     \<Rightarrow> jsstring option \<Rightarrow> park \<Rightarrow> bool" where
  "within_radius pf num la lo radius p =
     (case (pf la, pf lo, radius_number num radius) of
        (Some lat0, Some lng0, Some r) \<Rightarrow>
          (case service_dist lat0 lng0 p of None \<Rightarrow> False | Some d \<Rightarrow> d \<le> r)
      | _ \<Rightarrow> False)"

text \<open>
  The name filter of the handler, applied to the records left by the radius
  filter:
  \<^verbatim>\<open>
  const q = dest.toLowerCase().trim();
  if (q) {
    const tokens = q.split(/\s+/).filter(Boolean);
    results = results.filter(p => {
      const name = p.name.toLowerCase();
      return tokens.some(t => name.includes(t));
    });
  }
  \<close>
\<close>

definition name_filter :: "(jsstring \<Rightarrow> jsstring) \<Rightarrow> jsstring \<Rightarrow> park list \<Rightarrow> park list" where
  "name_filter lower dest results =
     (let q = trim (lower dest)
      in if q \<noteq> []
         then filter (\<lambda>p. list_ex (\<lambda>t. includes_str (lower (js (name p))) t) (tokens q)) results
         else results)"

text \<open>
  The handler: \<^verbatim>\<open>const { dest = '', lat, lng, radius = 900 } = req.query\<close>, the radius
  filter under \<^verbatim>\<open>if (lat && lng)\<close> (a parameter that is absent or the empty
  string is falsy), then the name filter under \<^verbatim>\<open>if (q)\<close>.
\<close>

definition radius_filter ::
  "(jsstring \<Rightarrow> real option) \<Rightarrow> (jsstring \<Rightarrow> real option) \<Rightarrow> jsstring option
     \<Rightarrow> jsstring option \<Rightarrow> jsstring option \<Rightarrow> park list \<Rightarrow> park list" where
  "radius_filter pf num la lo radius results =
     (case (la, lo) of
        (Some a, Some b) \<Rightarrow>
          (if a \<noteq> [] \<and> b \<noteq> [] then filter (within_radius pf num a b radius) results
           else results)
      | _ \<Rightarrow> results)"

definition parking_handler ::
  "(jsstring \<Rightarrow> jsstring) \<Rightarrow> (jsstring \<Rightarrow> real option) \<Rightarrow> (jsstring \<Rightarrow> real option)
     \<Rightarrow> jsstring option \<Rightarrow> jsstring option \<Rightarrow> jsstring option \<Rightarrow> jsstring option
     \<Rightarrow> park list" where
  "parking_handler lower pf num dest la lo radius =
     name_filter lower (case dest of None \<Rightarrow> [] | Some d \<Rightarrow> d)
       (radius_filter pf num la lo radius fixture)"

section \<open>The client's boundary with the service\<close>

text \<open>
  What \<^verbatim>\<open>r.json()\<close> yields is not typed: a field of a received record is any
  JSON value or absent. An object is a function from field names to values,
  \<open>JUndefined\<close> for an absent field; arrays and nested objects are \<open>JObject\<close>.
\<close>

datatype jsval = JUndefined | JNull | JBool bool | JNum rat | JStr string | JObject

type_synonym jsobj = "string \<Rightarrow> jsval"

text \<open>\<^verbatim>\<open>typeof v === 'number'\<close>, \<^verbatim>\<open>v ?? d\<close> and \<^verbatim>\<open>v || d\<close>.\<close>

definition is_number :: "jsval \<Rightarrow> bool" where
  "is_number v = (case v of JNum x \<Rightarrow> True | _ \<Rightarrow> False)"

definition nullish :: "jsval \<Rightarrow> jsval \<Rightarrow> jsval" where
  "nullish v d = (if v = JUndefined \<or> v = JNull then d else v)"

fun truthy :: "jsval \<Rightarrow> bool" where
  "truthy JUndefined = False"
| "truthy JNull = False"
| "truthy (JBool b) = b"
| "truthy (JNum x) = (x \<noteq> 0)"
| "truthy (JStr x) = (x \<noteq> [])"
| "truthy JObject = True"

definition js_or :: "jsval \<Rightarrow> jsval \<Rightarrow> jsval" where
  "js_or v d = (if truthy v then v else d)"

text \<open>
  \<^verbatim>\<open>
  function mapBackendParking(p) {
    return {
      id: p.id, name: p.name, lat: p.lat, lng: p.lng, capacity: p.capacity,
      available_spots: (typeof p.available_spots === 'number') ? p.available_spots : (p.available ?? 0),
      price: p.price,
      updated_at: p.updated_at || new Date().toISOString()
    };
  }
  \<close>
  The time of the call is the parameter \<open>now\<close>.
\<close>

definition mapBackendParking :: "string \<Rightarrow> jsobj \<Rightarrow> jsobj" where
  "mapBackendParking now p =
     (\<lambda>k. JUndefined)
       (''id'' := p ''id'',
        ''name'' := p ''name'',
        ''lat'' := p ''lat'',
        ''lng'' := p ''lng'',
        ''capacity'' := p ''capacity'',
        ''available_spots'' :=
           (if is_number (p ''available_spots'') then p ''available_spots''
            else nullish (p ''available'') (JNum 0)),
        ''price'' := p ''price'',
        ''updated_at'' := js_or (p ''updated_at'') (JStr now))"

text \<open>The normalisation as the specification writes it:
  \<^verbatim>\<open>available_spots ?? available ?? 0\<close>.\<close>

definition spec_available_spots :: "jsobj \<Rightarrow> jsval" where
  "spec_available_spots p = nullish (p ''available_spots'') (nullish (p ''available'') (JNum 0))"

text \<open>
  A wire record: a received record whose \<^verbatim>\<open>available_spots\<close>, if it is there at
  all, is a number. The records of the service, \<^verbatim>\<open>{id, name, lat, lng, capacity,
  available}\<close>, have none.
\<close>

definition wire_record :: "jsobj \<Rightarrow> bool" where
  "wire_record p =
     (is_number (p ''available_spots'') \<or> p ''available_spots'' = JUndefined \<or>
      p ''available_spots'' = JNull)"

section \<open>The resolution pipeline: chooseDestination\<close>

text \<open>
  \<^verbatim>\<open>
  async function chooseDestination(place) {
    suggestionsEl.style.display = 'none'; searchBox.value = place.name;
    currentDestination = place;
    map.setView([place.lat, place.lng], 16);
    statusEl.textContent = 'Loading nearby parking...';
    const { items } = USE_MOCK ? await api.parkingNear(place.lat, place.lng, 900)
                               : await api.parkingByDest(place.name);
    for (const it of items) it.distance_m = distanceMeters({ lat: place.lat, lng: place.lng }, it);
    markers.clear(); cluster.clearLayers(); lotListEl.innerHTML = '';
    items.forEach((p) => { upsertMarker(p); lotListEl.appendChild(lotCard(p)); });
    statusEl.textContent = items.length ? `Showing ${items.length} car parks near ${place.name}.`
                                        : 'No car parks found in this area.';
    ...
  }
  \<close>
  An \<^verbatim>\<open>async\<close> function runs up to its \<^verbatim>\<open>await\<close> when it is called and the
  rest when the awaited request completes, on one thread. The model is a
  state machine with the two steps: \<open>chooseDestination_call\<close> is the part
  before the \<^verbatim>\<open>await\<close>, which also records the request as in flight, and
  \<open>chooseDestination_resume\<close> the part after it, run when request \<open>k\<close>
  completes, with the \<open>place\<close> its call was given. What the data source answers
  for a place is the parameter \<open>fetch\<close>. The visible snapshot is the status
  line and the list of lots, each with its \<^verbatim>\<open>distance_m\<close>.
\<close>

datatype status_text = Loading | Showing nat string | NoCarParks

record ui =
  currentDestination :: "place option"
  statusEl :: "status_text option"
  lotListEl :: "(lot \<times> real) list"
  in_flight :: "(nat \<times> place) list"
  issued :: nat

definition ui_init :: ui where
  "ui_init = \<lparr>currentDestination = None, statusEl = None, lotListEl = [],
              in_flight = [], issued = 0\<rparr>"

definition chooseDestination_call :: "place \<Rightarrow> ui \<Rightarrow> ui" where
  "chooseDestination_call pl s =
     s\<lparr>currentDestination := Some pl, statusEl := Some Loading,
       in_flight := in_flight s @ [(issued s, pl)], issued := Suc (issued s)\<rparr>"

definition chooseDestination_resume :: "(place \<Rightarrow> lot list) \<Rightarrow> nat \<Rightarrow> ui \<Rightarrow> ui" where
  "chooseDestination_resume fetch k s =
     (case map_of (in_flight s) k of
        None \<Rightarrow> s
      | Some pl \<Rightarrow>
          (let items = fetch pl
           in s\<lparr>statusEl := Some (if items \<noteq> [] then Showing (length items) (name pl)
                                  else NoCarParks),
                lotListEl := map (\<lambda>it. (it, distanceMeters \<lparr>lat = lat pl, lng = lng pl\<rparr> it)) items,
                in_flight := filter (\<lambda>r. fst r \<noteq> k) (in_flight s)\<rparr>))"

datatype event = Choose place | Arrive nat

fun step :: "(place \<Rightarrow> lot list) \<Rightarrow> ui \<Rightarrow> event \<Rightarrow> ui" where
  "step fetch s (Choose pl) = chooseDestination_call pl s"
| "step fetch s (Arrive k) = chooseDestination_resume fetch k s"

definition run_from :: "(place \<Rightarrow> lot list) \<Rightarrow> ui \<Rightarrow> event list \<Rightarrow> ui" where
  "run_from fetch s evs = foldl (step fetch) s evs"

definition run :: "(place \<Rightarrow> lot list) \<Rightarrow> event list \<Rightarrow> ui" where
  "run fetch evs = run_from fetch ui_init evs"

text \<open>The request numbers in flight are below the next number to be issued.\<close>

definition fresh_ids :: "ui \<Rightarrow> bool" where
  "fresh_ids s = list_all (\<lambda>r. fst r < issued s) (in_flight s)"

text \<open>The visible snapshot of a state, and the snapshot that matches a destination.\<close>

definition visible :: "ui \<Rightarrow> status_text option \<times> (lot \<times> real) list" where
  "visible s = (statusEl s, lotListEl s)"

definition snapshot_for :: "(place \<Rightarrow> lot list) \<Rightarrow> place \<Rightarrow> status_text option \<times> (lot \<times> real) list" where
  "snapshot_for fetch pl =
     (Some (if fetch pl \<noteq> [] then Showing (length (fetch pl)) (name pl) else NoCarParks),
      map (\<lambda>it. (it, distanceMeters \<lparr>lat = lat pl, lng = lng pl\<rparr> it)) (fetch pl))"

text \<open>
  The data source of the client when it talks to the service:
  \<^verbatim>\<open>api.parkingByDest(place.name)\<close> requests \<^verbatim>\<open>/parking?dest=...\<close> (no \<^verbatim>\<open>lat\<close>,
  \<^verbatim>\<open>lng\<close> or \<^verbatim>\<open>radius\<close>) and maps \<^verbatim>\<open>mapBackendParking\<close> over the answer. On a
  record of the service, which has a numeric \<^verbatim>\<open>available\<close> and neither
  \<^verbatim>\<open>available_spots\<close>, \<^verbatim>\<open>price\<close> nor \<^verbatim>\<open>updated_at\<close>, that gives the lot below.
\<close>

definition parkingByDest :: "(jsstring \<Rightarrow> jsstring) \<Rightarrow> string \<Rightarrow> place \<Rightarrow> lot list" where
  "parkingByDest lower now pl =
     map (\<lambda>p. \<lparr>lat = lat p, lng = lng p, name = name p, lid = lid p, capacity = capacity p,
               available_spots = available p, price = None, updated_at = now\<rparr>)
       (parking_handler lower (\<lambda>x. None) (\<lambda>x. None) (Some (js (name pl))) None None None)"

section \<open>Inputs of the examples\<close>

text \<open>Two places of the service's gazetteer and two of the mock's.\<close>

definition place_flinders :: place where
  "place_flinders = \<lparr>lat = - 37.8183, lng = 144.9671, name = ''Flinders Street''\<rparr>"

definition place_southgate :: place where
  "place_southgate = \<lparr>lat = - 37.8203, lng = 144.9657, name = ''Southgate''\<rparr>"



text \<open>The first record of the service as it arrives; a record that carries
  \<^verbatim>\<open>available_spots\<close> already; a record with neither count.\<close>

definition wire_park001 :: jsobj where
  "wire_park001 = (\<lambda>k. JUndefined)
     (''id'' := JStr ''PARK001'', ''name'' := JStr ''Flinders St Car Park'',
      ''lat'' := JNum (- 378183 / 10000), ''lng'' := JNum (1449671 / 10000),
      ''capacity'' := JNum 200, ''available'' := JNum 35)"

definition wire_client :: jsobj where
  "wire_client = (\<lambda>k. JUndefined)
     (''id'' := JStr ''CP-103'', ''name'' := JStr ''QV Car Park'',
      ''capacity'' := JNum 120, ''available_spots'' := JNum 12, ''available'' := JNum 99)"

definition wire_bare :: jsobj where
  "wire_bare = (\<lambda>k. JUndefined)
     (''id'' := JStr ''X'', ''name'' := JStr ''No counts'', ''capacity'' := JNum 10,
      ''available'' := JNull)"

section \<open>Occupancy: results\<close>

text \<open>In exact arithmetic the clamped divisor is never zero, so the result is a number.\<close>

lemma occupancy_pct_finite:
  "occupancy_pct cap avail =
     Fin (of_int \<lfloor>(of_int (cap - avail) :: rat) / of_int (max 1 cap) * 100 + 1 / 2\<rfloor>)"
proof -
  have "(of_int (max 1 cap) :: rat) \<noteq> 0"
    by simp
  then show ?thesis
    by (simp add: occupancy_pct_def)
qed

lemma occupancy_pct_examples:
  "occupancy_pct 0 0 = Fin 0" "occupancy_pct 100 25 = Fin 75"
  by (simp_all add: occupancy_pct_def floor_eq_iff)

text \<open>
  C1, the copy of \<^verbatim>\<open>renderCharts\<close> in \<^verbatim>\<open>src/app.js\<close>: the divisor is
  \<^verbatim>\<open>l.capacity\<close> itself, so a lot with capacity 0 and 0 available spots gets
  \<^verbatim>\<open>Math.round(0 / 0 * 100)\<close>, which is \<^verbatim>\<open>NaN\<close> and not 0. The copy in
  \<^verbatim>\<open>src/unnamed/part_000\<close> clamps the divisor (\<open>occupancy_pct_finite\<close>,
  \<open>occupancy_pct_examples\<close>).
\<close>

theorem occupancy_unclamped_nan:
  "renderCharts_occ_app
     [\<lparr>lat = 0, lng = 0, name = ''Empty lot'', lid = ''L0'', capacity = 0,
       available_spots = 0, price = None, updated_at = ''t''\<rparr>] = [NaN]
   \<and> renderCharts_occ
     [\<lparr>lat = 0, lng = 0, name = ''Empty lot'', lid = ''L0'', capacity = 0,
       available_spots = 0, price = None, updated_at = ''t''\<rparr>] = [Fin 0]"
  by (simp add: renderCharts_occ_app_def occupancy_pct_unclamped_def renderCharts_occ_def
      occupancy_pct_def floor_eq_iff)

section \<open>pushUpdates: results\<close>

lemma findIndex_None_iff: "findIndex P xs = None \<longleftrightarrow> (\<forall>x\<in>set xs. \<not> P x)"
  by (induction xs) (auto split: option.splits)

lemma findIndex_Some:
  "findIndex P xs = Some j \<Longrightarrow> j < length xs \<and> P (xs ! j) \<and> (\<forall>i<j. \<not> P (xs ! i))"
proof (induction xs arbitrary: j)
  case Nil
  then show ?case by simp
next
  case (Cons x xs)
  show ?case
  proof (cases "P x")
    case True
    with Cons.prems show ?thesis by simp
  next
    case False
    with Cons.prems obtain i where i: "findIndex P xs = Some i" "j = Suc i"
      by (auto split: option.splits)
    from Cons.IH[OF i(1)] False i(2) show ?thesis
      by (auto simp: nth_Cons split: nat.splits)
  qed
qed

lemma frame_refl: "frame l l"
  by (simp add: frame_def)

lemma frame_update: "frame l (update_lot d t l)"
  by (simp add: frame_def update_lot_def)

lemma frame_trans: "frame a b \<Longrightarrow> frame b c \<Longrightarrow> frame a c"
  by (cases a; cases b; cases c) (simp add: frame_def)

lemma frame_fields:
  "frame l l' \<Longrightarrow>
     lid l' = lid l \<and> name l' = name l \<and> lat l' = lat l \<and> lng l' = lng l \<and>
     capacity l' = capacity l \<and> price l' = price l"
  by (cases l; cases l') (simp add: frame_def)

lemma lid_update_lot: "lid (update_lot d t l) = lid l"
  by (simp add: update_lot_def)

lemma in_range_update_lot: "0 \<le> capacity l \<Longrightarrow> in_range (update_lot d t l)"
  by (simp add: update_lot_def in_range_def)

lemma in_range_list_update:
  assumes "\<forall>l\<in>set xs. in_range l" "in_range x"
  shows "\<forall>l\<in>set (xs[j := x]). in_range l"
proof
  fix l assume "l \<in> set (xs[j := x])"
  then have "l \<in> insert x (set xs)"
    using set_update_subset_insert[of xs j x] by blast
  with assms show "in_range l" by blast
qed

text \<open>The ids of the store never change, and the loop appends one record for each
  requested id that the store has, in the order of the request.\<close>

lemma loop_ids:
  "pushUpdates_loop rnd now k lots ids ch = (lots', ch') \<Longrightarrow>
     map lid lots' = map lid lots \<and>
     map lid ch' = map lid ch @ filter (\<lambda>i. i \<in> lid ` set lots) ids"
proof (induction ids arbitrary: k lots ch)
  case Nil
  then show ?case by simp
next
  case (Cons i ids)
  show ?case
  proof (cases "findIndex (\<lambda>l. lid l = i) lots")
    case None
    then have "i \<notin> lid ` set lots" by (auto simp: findIndex_None_iff)
    with Cons None show ?thesis by simp
  next
    case (Some j)
    let ?l = "update_lot (perturb (rnd k)) (now k) (lots ! j)"
    from findIndex_Some[OF Some] have j: "j < length lots" "lid (lots ! j) = i" by auto
    have m: "map lid (lots[j := ?l]) = map lid lots"
      using j by (simp add: map_update lid_update_lot list_update_same_conv)
    then have "set (map lid (lots[j := ?l])) = set (map lid lots)"
      by simp
    then have s: "lid ` set (lots[j := ?l]) = lid ` set lots"
      by simp
    have "i \<in> lid ` set lots" using j nth_mem[of j lots] by force
    moreover from Cons.prems Some
    have "pushUpdates_loop rnd now (Suc k) (lots[j := ?l]) ids (ch @ [?l]) = (lots', ch')"
      by (simp add: Let_def)
    from Cons.IH[OF this] have "map lid lots' = map lid (lots[j := ?l])"
      "map lid ch' = map lid (ch @ [?l]) @ filter (\<lambda>i. i \<in> lid ` set (lots[j := ?l])) ids"
      by auto
    ultimately show ?thesis using m s j by (simp add: lid_update_lot)
  qed
qed

lemma loop_in_range:
  "pushUpdates_loop rnd now k lots ids ch = (lots', ch') \<Longrightarrow>
   \<forall>l\<in>set lots. in_range l \<Longrightarrow> \<forall>l\<in>set ch. in_range l \<Longrightarrow>
     (\<forall>l\<in>set lots'. in_range l) \<and> (\<forall>l\<in>set ch'. in_range l)"
proof (induction ids arbitrary: k lots ch)
  case Nil
  then show ?case by simp
next
  case (Cons i ids)
  show ?case
  proof (cases "findIndex (\<lambda>l. lid l = i) lots")
    case None
    with Cons.prems(1) have "pushUpdates_loop rnd now k lots ids ch = (lots', ch')"
      by simp
    from Cons.IH[OF this Cons.prems(2) Cons.prems(3)] show ?thesis .
  next
    case (Some j)
    let ?l = "update_lot (perturb (rnd k)) (now k) (lots ! j)"
    from findIndex_Some[OF Some] have j: "j < length lots" by simp
    then have "in_range (lots ! j)" using Cons.prems(2) by simp
    then have "0 \<le> capacity (lots ! j)" by (simp add: in_range_def)
    then have r: "in_range ?l" by (rule in_range_update_lot)
    have a: "\<forall>l\<in>set (lots[j := ?l]). in_range l"
      using Cons.prems(2) r by (rule in_range_list_update)
    have b: "\<forall>l\<in>set (ch @ [?l]). in_range l"
      using Cons.prems(3) r by simp
    from Cons.prems(1) Some
    have "pushUpdates_loop rnd now (Suc k) (lots[j := ?l]) ids (ch @ [?l]) = (lots', ch')"
      by (simp add: Let_def)
    from Cons.IH[OF this a b] show ?thesis .
  qed
qed

lemma loop_frame:
  "pushUpdates_loop rnd now k lots ids ch = (lots', ch') \<Longrightarrow>
     list_all2 (\<lambda>l l'. frame l l' \<and> (lid l \<notin> set ids \<longrightarrow> l' = l)) lots lots'"
proof (induction ids arbitrary: k lots ch)
  case Nil
  then show ?case by (simp add: list_all2_same frame_refl)
next
  case (Cons i ids)
  show ?case
  proof (cases "findIndex (\<lambda>l. lid l = i) lots")
    case None
    with Cons.prems have "pushUpdates_loop rnd now k lots ids ch = (lots', ch')" by simp
    from Cons.IH[OF this] show ?thesis
      by (rule list_all2_mono) auto
  next
    case (Some j)
    let ?l = "update_lot (perturb (rnd k)) (now k) (lots ! j)"
    from findIndex_Some[OF Some] have j: "j < length lots" "lid (lots ! j) = i" by auto
    have step: "list_all2 (\<lambda>l l'. frame l l' \<and> (lid l \<noteq> i \<longrightarrow> l' = l)) lots (lots[j := ?l])"
      using j by (auto simp: list_all2_conv_all_nth nth_list_update frame_refl frame_update)
    from Cons.prems Some
    have "pushUpdates_loop rnd now (Suc k) (lots[j := ?l]) ids (ch @ [?l]) = (lots', ch')"
      by (simp add: Let_def)
    from Cons.IH[OF this]
    have rest: "list_all2 (\<lambda>l l'. frame l l' \<and> (lid l \<notin> set ids \<longrightarrow> l' = l))
                  (lots[j := ?l]) lots'" .
    show ?thesis
      unfolding list_all2_conv_all_nth
    proof (intro conjI allI impI)
      show "length lots = length lots'"
        using step rest by (simp add: list_all2_conv_all_nth)
    next
      fix n assume n: "n < length lots"
      from step n have s: "frame (lots ! n) (lots[j := ?l] ! n)"
        "lid (lots ! n) \<noteq> i \<longrightarrow> lots[j := ?l] ! n = lots ! n"
        by (auto simp: list_all2_conv_all_nth)
      from rest n have r: "frame (lots[j := ?l] ! n) (lots' ! n)"
        "lid (lots[j := ?l] ! n) \<notin> set ids \<longrightarrow> lots' ! n = lots[j := ?l] ! n"
        by (auto simp: list_all2_conv_all_nth)
      show "frame (lots ! n) (lots' ! n)" using s(1) r(1) by (rule frame_trans)
      assume "lid (lots ! n) \<notin> set (i # ids)"
      then show "lots' ! n = lots ! n" using s(2) r(2) by auto
    qed
  qed
qed

text \<open>
  C3. If every lot of the store has \<open>0 \<le> available_spots \<le> capacity\<close>, then
  for every id list, every source of random numbers (so every perturbation)
  and every clock, each lot of the store after \<open>pushUpdates\<close> and each returned
  record has it too.
\<close>

theorem pushUpdates_in_range:
  assumes "\<forall>l\<in>set lots. in_range l"
  shows "(\<forall>l\<in>set (fst (pushUpdates rnd now lots ids)). in_range l) \<and>
         (\<forall>l\<in>set (snd (pushUpdates rnd now lots ids)). in_range l)"
proof -
  obtain lots' ch' where r: "pushUpdates_loop rnd now 0 lots ids [] = (lots', ch')"
    by (cases "pushUpdates_loop rnd now 0 lots ids []") auto
  from loop_in_range[OF r assms] show ?thesis
    by (simp add: pushUpdates_def r)
qed

theorem pushUpdates_in_range_witness:
  "list_all in_range (mock_lots ''t0'') \<and>
   list_all in_range (fst (pushUpdates (\<lambda>k. 0) (\<lambda>k. ''t1'') (mock_lots ''t0'')
       [''CP-202'', ''CP-999'', ''CP-202'', ''CP-202''])) \<and>
   list_all in_range (snd (pushUpdates (\<lambda>k. 0) (\<lambda>k. ''t1'') (mock_lots ''t0'')
       [''CP-202'', ''CP-999'', ''CP-202'', ''CP-202'']))"
proof -
  have h: "\<forall>l\<in>set (mock_lots ''t0''). in_range l"
    by (simp add: mock_lots_def in_range_def)
  from h pushUpdates_in_range[OF h] show ?thesis
    by (simp add: list_all_iff)
qed

text \<open>
  C7. The returned list holds one record for each requested id that is in the
  store, in the order of the request, and none for an id that is not: such an
  id is skipped. The function is total: its only index into the store is the
  one \<open>findIndex\<close> found (\<open>findIndex_Some\<close>), so no step can fail.
\<close>

theorem pushUpdates_skips_unknown:
  "map lid (snd (pushUpdates rnd now lots ids)) = filter (\<lambda>i. i \<in> lid ` set lots) ids"
proof -
  obtain lots' ch' where r: "pushUpdates_loop rnd now 0 lots ids [] = (lots', ch')"
    by (cases "pushUpdates_loop rnd now 0 lots ids []") auto
  from loop_ids[OF r] show ?thesis
    by (simp add: pushUpdates_def r)
qed

theorem pushUpdates_skips_unknown_witness:
  "map lid (snd (pushUpdates (\<lambda>k. 0) (\<lambda>k. ''t1'') (mock_lots ''t0'')
      [''CP-101'', ''CP-999'', ''CP-103''])) = [''CP-101'', ''CP-103'']"
  using pushUpdates_skips_unknown[of "\<lambda>k. 0" "\<lambda>k. ''t1''" "mock_lots ''t0''"
      "[''CP-101'', ''CP-999'', ''CP-103'']"]
  by (simp add: mock_lots_def)

text \<open>
  C9. \<open>pushUpdates\<close> keeps the length and the order of the store; at every
  position the lot keeps its id, name, lat, lng, capacity and price, and a lot
  whose id is not in the id list is unchanged in every field.
\<close>

theorem pushUpdates_frame:
  "length (fst (pushUpdates rnd now lots ids)) = length lots \<and>
   (\<forall>n<length lots.
      lid (fst (pushUpdates rnd now lots ids) ! n) = lid (lots ! n) \<and>
      name (fst (pushUpdates rnd now lots ids) ! n) = name (lots ! n) \<and>
      lat (fst (pushUpdates rnd now lots ids) ! n) = lat (lots ! n) \<and>
      lng (fst (pushUpdates rnd now lots ids) ! n) = lng (lots ! n) \<and>
      capacity (fst (pushUpdates rnd now lots ids) ! n) = capacity (lots ! n) \<and>
      price (fst (pushUpdates rnd now lots ids) ! n) = price (lots ! n) \<and>
      (lid (lots ! n) \<notin> set ids \<longrightarrow> fst (pushUpdates rnd now lots ids) ! n = lots ! n))"
proof -
  obtain lots' ch' where r: "pushUpdates_loop rnd now 0 lots ids [] = (lots', ch')"
    by (cases "pushUpdates_loop rnd now 0 lots ids []") auto
  have f: "fst (pushUpdates rnd now lots ids) = lots'"
    by (simp add: pushUpdates_def r)
  from loop_frame[OF r]
  have len: "length lots = length lots'"
    and nth: "\<And>n. n < length lots \<Longrightarrow>
                frame (lots ! n) (lots' ! n) \<and> (lid (lots ! n) \<notin> set ids \<longrightarrow> lots' ! n = lots ! n)"
    by (simp_all add: list_all2_conv_all_nth)
  show ?thesis
    unfolding f
  proof (intro conjI allI impI)
    show "length lots' = length lots"
      using len by simp
  next
    fix n assume n: "n < length lots"
    from nth[OF n] have fr: "frame (lots ! n) (lots' ! n)"
      by simp
    from frame_fields[OF fr]
    show "lid (lots' ! n) = lid (lots ! n)" "name (lots' ! n) = name (lots ! n)"
      "lat (lots' ! n) = lat (lots ! n)" "lng (lots' ! n) = lng (lots ! n)"
      "capacity (lots' ! n) = capacity (lots ! n)" "price (lots' ! n) = price (lots ! n)"
      by simp_all
    assume "lid (lots ! n) \<notin> set ids"
    with nth[OF n] show "lots' ! n = lots ! n"
      by simp
  qed
qed

theorem pushUpdates_frame_witness:
  "length (fst (pushUpdates (\<lambda>k. 0) (\<lambda>k. ''t1'') (mock_lots ''t0'') [''CP-102''])) = 5 \<and>
   name (fst (pushUpdates (\<lambda>k. 0) (\<lambda>k. ''t1'') (mock_lots ''t0'') [''CP-102'']) ! 1)
     = ''Russell St Car Park'' \<and>
   fst (pushUpdates (\<lambda>k. 0) (\<lambda>k. ''t1'') (mock_lots ''t0'') [''CP-102'']) ! 0
     = mock_lots ''t0'' ! 0"
proof -
  let ?r = "fst (pushUpdates (\<lambda>k. 0) (\<lambda>k. ''t1'') (mock_lots ''t0'') [''CP-102''])"
  note fr = pushUpdates_frame[of "\<lambda>k. 0" "\<lambda>k. ''t1''" "mock_lots ''t0''" "[''CP-102'']"]
  have len: "length (mock_lots ''t0'') = 5"
    by (simp add: mock_lots_def)
  from fr len have "length ?r = 5"
    by simp
  moreover from fr have "name (?r ! 1) = name (mock_lots ''t0'' ! 1)"
    using len by simp
  then have "name (?r ! 1) = ''Russell St Car Park''"
    by (simp add: mock_lots_def)
  moreover have "lid (mock_lots ''t0'' ! 0) \<notin> set [''CP-102'']"
    by (simp add: mock_lots_def)
  with fr have "?r ! 0 = mock_lots ''t0'' ! 0"
    using len by simp
  ultimately show ?thesis
    by simp
qed

section \<open>GeoMath: results\<close>











section \<open>parkingNear: results\<close>







section \<open>The HTTP service: results\<close>

lemma startsWith_iff: "startsWith s t \<longleftrightarrow> (\<exists>ss. s = t @ ss)"
  by (induction s t rule: startsWith.induct) auto

lemma includes_str_iff: "includes_str s t \<longleftrightarrow> (\<exists>ps ss. s = ps @ t @ ss)"
proof (induction s)
  case Nil
  then show ?case by simp
next
  case (Cons d s)
  show ?case
  proof
    assume "includes_str (d # s) t"
    then consider "startsWith (d # s) t" | "includes_str s t" by auto
    then show "\<exists>ps ss. d # s = ps @ t @ ss"
    proof cases
      case 1
      then obtain ss where "d # s = t @ ss" by (auto simp: startsWith_iff)
      then have "d # s = [] @ t @ ss" by simp
      then show ?thesis by blast
    next
      case 2
      with Cons.IH obtain ps ss where "s = ps @ t @ ss" by auto
      then have "d # s = (d # ps) @ t @ ss" by simp
      then show ?thesis by blast
    qed
  next
    assume "\<exists>ps ss. d # s = ps @ t @ ss"
    then obtain ps ss where e: "d # s = ps @ t @ ss" by auto
    show "includes_str (d # s) t"
    proof (cases ps)
      case Nil
      with e have "startsWith (d # s) t" by (auto simp: startsWith_iff)
      then show ?thesis by simp
    next
      case (Cons a ps')
      with e have "s = ps' @ t @ ss" by simp
      with Cons.IH have "includes_str s t" by blast
      then show ?thesis by simp
    qed
  qed
qed

lemma spec_token_Nil: "\<not> spec_token [] t"
  by (auto simp: spec_token_def)

lemma spec_tokenI:
  "t \<noteq> [] \<Longrightarrow> \<forall>c\<in>set t. \<not> is_space c \<Longrightarrow> s = pre @ t @ post \<Longrightarrow>
   pre = [] \<or> is_space (last pre) \<Longrightarrow> post = [] \<or> is_space (hd post) \<Longrightarrow> spec_token s t"
  unfolding spec_token_def list_ex_iff by blast

lemma spec_tokenE:
  assumes "spec_token s t"
  obtains pre post where "t \<noteq> []" "\<forall>c\<in>set t. \<not> is_space c" "s = pre @ t @ post"
    "pre = [] \<or> is_space (last pre)" "post = [] \<or> is_space (hd post)"
  using assms unfolding spec_token_def list_ex_iff by blast

lemma spec_token_Cons_space:
  assumes "is_space x"
  shows "spec_token (x # s) t \<longleftrightarrow> spec_token s t"
proof
  assume "spec_token (x # s) t"
  then obtain pre post where t: "t \<noteq> []" "\<forall>c\<in>set t. \<not> is_space c"
    and e: "x # s = pre @ t @ post"
    and b: "pre = [] \<or> is_space (last pre)" "post = [] \<or> is_space (hd post)"
    by (rule spec_tokenE)
  have "pre \<noteq> []"
  proof
    assume "pre = []"
    with e t(1) have "hd t = x" by (cases t) auto
    with t assms show False by (cases t) auto
  qed
  then obtain pre' where p: "pre = x # pre'"
    using e by (cases pre) auto
  with e have e': "s = pre' @ t @ post" by simp
  have "pre' = [] \<or> is_space (last pre')"
    using b(1) p by (cases "pre' = []") auto
  with t e' b(2) show "spec_token s t"
    by (intro spec_tokenI)
next
  assume "spec_token s t"
  then obtain pre post where t: "t \<noteq> []" "\<forall>c\<in>set t. \<not> is_space c"
    and e: "s = pre @ t @ post"
    and b: "pre = [] \<or> is_space (last pre)" "post = [] \<or> is_space (hd post)"
    by (rule spec_tokenE)
  have e': "x # s = (x # pre) @ t @ post" using e by simp
  have "is_space (last (x # pre))"
    using b(1) assms by (cases "pre = []") auto
  then have "x # pre = [] \<or> is_space (last (x # pre))" by simp
  with t e' b(2) show "spec_token (x # s) t"
    by (intro spec_tokenI[where pre = "x # pre" and post = post])
qed

lemma spec_token_dropWhile: "spec_token (dropWhile is_space s) t \<longleftrightarrow> spec_token s t"
  by (induction s) (simp_all add: spec_token_Cons_space)

lemma spec_token_rev: "spec_token (rev s) (rev t) \<longleftrightarrow> spec_token s t"
proof -
  have dir: "spec_token (rev s) (rev t)" if "spec_token s t" for s t :: jsstring
  proof -
    from that obtain pre post where t: "t \<noteq> []" "\<forall>c\<in>set t. \<not> is_space c"
      and e: "s = pre @ t @ post"
      and b: "pre = [] \<or> is_space (last pre)" "post = [] \<or> is_space (hd post)"
      by (rule spec_tokenE)
    have 1: "rev t \<noteq> []" "\<forall>c\<in>set (rev t). \<not> is_space c" using t by simp_all
    have 2: "rev s = rev post @ rev t @ rev pre" using e by simp
    have 3: "rev post = [] \<or> is_space (last (rev post))"
      using b(2) by (cases "post = []") (auto simp: last_rev)
    have 4: "rev pre = [] \<or> is_space (hd (rev pre))"
      using b(1) by (cases "pre = []") (auto simp: hd_rev)
    from 1 2 3 4 show ?thesis by (rule spec_tokenI)
  qed
  show ?thesis
  proof
    assume "spec_token (rev s) (rev t)"
    from dir[OF this] show "spec_token s t" by simp
  next
    assume "spec_token s t"
    then show "spec_token (rev s) (rev t)" by (rule dir)
  qed
qed

lemma spec_token_trim: "spec_token (trim s) t \<longleftrightarrow> spec_token s t"
proof -
  let ?s' = "dropWhile is_space s"
  have "spec_token (trim s) t \<longleftrightarrow> spec_token (rev (dropWhile is_space (rev ?s'))) (rev (rev t))"
    by (simp add: trim_def)
  also have "\<dots> \<longleftrightarrow> spec_token (dropWhile is_space (rev ?s')) (rev t)"
    by (rule spec_token_rev)
  also have "\<dots> \<longleftrightarrow> spec_token (rev ?s') (rev t)"
    by (rule spec_token_dropWhile)
  also have "\<dots> \<longleftrightarrow> spec_token ?s' t"
    by (rule spec_token_rev)
  also have "\<dots> \<longleftrightarrow> spec_token s t"
    by (rule spec_token_dropWhile)
  finally show ?thesis .
qed

lemma trim_Nil_iff: "trim s = [] \<longleftrightarrow> (\<forall>c\<in>set s. is_space c)"
proof -
  have "trim s = [] \<longleftrightarrow> (\<forall>c\<in>set (dropWhile is_space s). is_space c)"
    by (simp add: trim_def dropWhile_eq_Nil_conv)
  also have "\<dots> \<longleftrightarrow> (\<forall>c\<in>set s. is_space c)"
  proof
    assume a: "\<forall>c\<in>set (dropWhile is_space s). is_space c"
    have "dropWhile is_space s = []"
    proof (rule ccontr)
      assume "dropWhile is_space s \<noteq> []"
      then have "\<not> is_space (hd (dropWhile is_space s))"
        by (rule hd_dropWhile)
      moreover have "hd (dropWhile is_space s) \<in> set (dropWhile is_space s)"
        using \<open>dropWhile is_space s \<noteq> []\<close> by simp
      ultimately show False using a by blast
    qed
    then show "\<forall>c\<in>set s. is_space c"
      by (simp add: dropWhile_eq_Nil_conv)
  next
    assume "\<forall>c\<in>set s. is_space c"
    then show "\<forall>c\<in>set (dropWhile is_space s). is_space c"
      using set_dropWhileD by fast
  qed
  finally show ?thesis .
qed

lemma takeWhile_word:
  assumes "\<forall>c\<in>set a. \<not> is_space c" "r = [] \<or> is_space (hd r)"
  shows "takeWhile (\<lambda>c. \<not> is_space c) (a @ r) = a"
proof -
  have "takeWhile (\<lambda>c. \<not> is_space c) r = []"
    using assms(2) by (cases r) auto
  with assms(1) show ?thesis
    by (simp add: takeWhile_append2)
qed

lemma spec_token_word:
  assumes a: "a \<noteq> []" "\<forall>c\<in>set a. \<not> is_space c" and r: "r = [] \<or> is_space (hd r)"
  shows "spec_token (a @ r) t \<longleftrightarrow> t = a \<or> spec_token r t"
proof
  assume "spec_token (a @ r) t"
  then obtain pre post where t: "t \<noteq> []" "\<forall>c\<in>set t. \<not> is_space c"
    and e: "a @ r = pre @ t @ post"
    and b: "pre = [] \<or> is_space (last pre)" "post = [] \<or> is_space (hd post)"
    by (rule spec_tokenE)
  show "t = a \<or> spec_token r t"
  proof (cases "pre = []")
    case True
    with e have "a @ r = t @ post" by simp
    then have "takeWhile (\<lambda>c. \<not> is_space c) (a @ r) = takeWhile (\<lambda>c. \<not> is_space c) (t @ post)"
      by simp
    then have "a = t"
      using takeWhile_word[OF a(2) r] takeWhile_word[OF t(2) b(2)] by simp
    then show ?thesis by simp
  next
    case False
    with b(1) have sp: "is_space (last pre)" by simp
    from False have lp: "last pre \<in> set pre" by simp
    from e obtain u where "(a = pre @ u \<and> u @ r = t @ post) \<or> (a @ u = pre \<and> r = u @ t @ post)"
      unfolding append_eq_append_conv2 by blast
    then show ?thesis
    proof
      assume "a = pre @ u \<and> u @ r = t @ post"
      then have "last pre \<in> set a" using lp by simp
      with a(2) sp show ?thesis by blast
    next
      assume u: "a @ u = pre \<and> r = u @ t @ post"
      have "u = [] \<or> is_space (last u)"
      proof (cases "u = []")
        case True
        then show ?thesis by simp
      next
        case False
        with u have "last pre = last u" by auto
        with sp show ?thesis by simp
      qed
      with t u b(2) have "spec_token r t"
        by (intro spec_tokenI[where pre = u and post = post]) auto
      then show ?thesis by simp
    qed
  qed
next
  assume "t = a \<or> spec_token r t"
  then show "spec_token (a @ r) t"
  proof
    assume "t = a"
    with a r show ?thesis
      by (intro spec_tokenI[where pre = "[]" and post = r]) auto
  next
    assume "spec_token r t"
    then obtain pre post where t: "t \<noteq> []" "\<forall>c\<in>set t. \<not> is_space c"
      and e: "r = pre @ t @ post"
      and b: "pre = [] \<or> is_space (last pre)" "post = [] \<or> is_space (hd post)"
      by (rule spec_tokenE)
    have "pre \<noteq> []"
    proof
      assume "pre = []"
      with e t(1) have "r \<noteq> []" "hd r = hd t" by (cases t; simp)+
      with r have "is_space (hd t)" by simp
      moreover have "hd t \<in> set t" using t(1) by simp
      ultimately show False using t(2) by blast
    qed
    with b(1) have "is_space (last (a @ pre))" by simp
    then have "a @ pre = [] \<or> is_space (last (a @ pre))" by simp
    moreover have "a @ r = (a @ pre) @ t @ post" using e by simp
    ultimately show ?thesis
      using t b(2) by (intro spec_tokenI[where pre = "a @ pre" and post = post])
  qed
qed

lemma tokens_spec: "set (tokens s) = {t. spec_token s t}"
proof (induction s rule: split_ws.induct)
  case (1 s)
  let ?tok = "takeWhile (\<lambda>c. \<not> is_space c) s"
  let ?rest = "dropWhile (\<lambda>c. \<not> is_space c) s"
  have s: "s = ?tok @ ?rest" by simp
  have tok: "\<forall>c\<in>set ?tok. \<not> is_space c"
    by (auto dest: set_takeWhileD)
  have rest: "?rest = [] \<or> is_space (hd ?rest)"
    using hd_dropWhile[of "\<lambda>c. \<not> is_space c" s] by auto
  show ?case
  proof (cases "?rest = []")
    case True
    have sw: "split_ws s = [?tok]"
      by (subst split_ws.simps) (simp only: Let_def if_P[OF True])
    have st: "s = ?tok"
      using True takeWhile_dropWhile_id[of "\<lambda>c. \<not> is_space c" s] by (metis append_Nil2)
    show ?thesis
    proof (cases "s = []")
      case True
      with sw show ?thesis by (simp add: tokens_def spec_token_Nil)
    next
      case False
      with st have ne: "?tok \<noteq> []" by simp
      have "spec_token (?tok @ []) t \<longleftrightarrow> t = ?tok \<or> spec_token [] t" for t
        using ne tok by (intro spec_token_word) simp_all
      then have "spec_token s t \<longleftrightarrow> t = s" for t
        using st by (simp add: spec_token_Nil)
      moreover have "set (tokens s) = {s}"
        using sw False st by (simp add: tokens_def)
      ultimately show ?thesis by auto
    qed
  next
    case False
    let ?rest' = "dropWhile is_space ?rest"
    have sw: "split_ws s = ?tok # split_ws ?rest'"
      by (subst split_ws.simps) (simp only: Let_def if_not_P[OF False])
    from "1.IH"[OF refl refl False] have ih: "set (tokens ?rest') = {t. spec_token ?rest' t}" .
    have dr: "spec_token ?rest' t \<longleftrightarrow> spec_token ?rest t" for t
      by (rule spec_token_dropWhile)
    show ?thesis
    proof (cases "?tok = []")
      case True
      with s have "s = ?rest" by simp
      then have "spec_token s t \<longleftrightarrow> spec_token ?rest t" for t by simp
      moreover have "set (tokens s) = set (tokens ?rest')"
        using sw True by (simp add: tokens_def)
      ultimately show ?thesis using ih dr by simp
    next
      case ne: False
      have "spec_token (?tok @ ?rest) t \<longleftrightarrow> t = ?tok \<or> spec_token ?rest t" for t
        using ne tok rest by (rule spec_token_word)
      then have "spec_token s t \<longleftrightarrow> t = ?tok \<or> spec_token ?rest t" for t
        by simp
      moreover have "set (tokens s) = insert ?tok (set (tokens ?rest'))"
        using sw ne by (simp add: tokens_def)
      ultimately show ?thesis using ih dr by auto
    qed
  qed
qed

lemma name_filter_char:
  "name_filter lower dest results =
     (if \<forall>c\<in>set (lower dest). is_space c then results
      else filter (\<lambda>p. \<exists>t. spec_token (lower dest) t \<and>
                       (\<exists>ps ss. lower (js (name p)) = ps @ t @ ss)) results)"
proof -
  have "list_ex (\<lambda>t. includes_str (lower (js (name p))) t) (tokens (trim (lower dest)))
        \<longleftrightarrow> (\<exists>t. spec_token (lower dest) t \<and> (\<exists>ps ss. lower (js (name p)) = ps @ t @ ss))"
    for p :: park
    using tokens_spec[of "trim (lower dest)"]
    by (auto simp: list_ex_iff includes_str_iff spec_token_trim)
  then show ?thesis
    by (simp add: name_filter_def Let_def trim_Nil_iff)
qed

lemma handler_no_coords:
  "parking_handler lower pf num dest None None radius =
     name_filter lower (case dest of None \<Rightarrow> [] | Some d \<Rightarrow> d) fixture"
  by (simp add: parking_handler_def radius_filter_def)

lemma name_filter_flinders:
  "map lid (name_filter toLowerCase_ascii (js ''flinders'') fixture) = [''PARK001'']"
  by code_simp

lemma name_filter_two_words:
  "map lid (name_filter toLowerCase_ascii (js ''QV  Southgate'') fixture)
     = [''PARK003'', ''PARK005'']"
  by code_simp

lemma name_filter_blank:
  "map lid (name_filter toLowerCase_ascii (js '' '') fixture)
     = [''PARK001'', ''PARK002'', ''PARK003'', ''PARK004'', ''PARK005'']"
  by code_simp

lemma not_blank_flinders: "\<not> list_all is_space (toLowerCase_ascii (js ''flinders''))"
  by code_simp

lemma not_blank_two_words: "\<not> list_all is_space (toLowerCase_ascii (js ''QV  Southgate''))"
  by code_simp

lemma tokens_blank: "tokens (toLowerCase_ascii (js '' '')) = []"
  by code_simp

text \<open>A no-break space (U+00A0) is white space: alone it is an empty query, and it
  separates two words.\<close>

lemma name_filter_nbsp:
  "map lid (name_filter toLowerCase_ascii [0xA0] fixture)
     = [''PARK001'', ''PARK002'', ''PARK003'', ''PARK004'', ''PARK005'']"
  "map lid (name_filter toLowerCase_ascii (js ''qv'' @ [0xA0] @ js ''southgate'') fixture)
     = [''PARK003'', ''PARK005'']"
  by code_simp+

text \<open>
  C10. If \<^verbatim>\<open>lat\<close> or \<^verbatim>\<open>lng\<close> is missing from the query, the answer of
  \<^verbatim>\<open>GET /api/v1/parking\<close> is the name filter applied to the whole fixture,
  whatever \<^verbatim>\<open>radius\<close> is: the radius filter runs only when both are present.
\<close>

theorem parking_no_coords:
  "la = None \<or> lo = None \<Longrightarrow>
     parking_handler lower pf num dest la lo radius =
       name_filter lower (case dest of None \<Rightarrow> [] | Some d \<Rightarrow> d) fixture"
  by (auto simp: parking_handler_def radius_filter_def split: option.splits)

theorem parking_no_coords_witness:
  "map lid (parking_handler toLowerCase_ascii (\<lambda>x. Some 0) (\<lambda>x. Some 1) None None
      (Some (js ''144.9671'')) (Some (js ''1'')))
     = [''PARK001'', ''PARK002'', ''PARK003'', ''PARK004'', ''PARK005'']"
proof -
  have "name_filter toLowerCase_ascii [] fixture = fixture"
    by (simp add: name_filter_def trim_def toLowerCase_ascii_def)
  with parking_no_coords[of None "Some (js ''144.9671'')" toLowerCase_ascii "\<lambda>x. Some 0"
      "\<lambda>x. Some 1" None "Some (js ''1'')"]
  show ?thesis
    by (simp add: fixture_def)
qed

text \<open>
  C6, as the code has it. With no coordinates in the query there is no radius
  filtering. Let \<open>d\<close> be \<^verbatim>\<open>dest\<close> in lower case (the empty string if \<^verbatim>\<open>dest\<close>
  is absent). If \<open>d\<close> holds a character that is not white space, the handler
  keeps exactly the fixture records whose lower-cased name contains, as a
  contiguous piece, one of the words of \<open>d\<close>: the non-empty pieces of \<open>d\<close>
  free of white space and bounded by white space or an end of \<open>d\<close>. If \<open>d\<close>
  is empty or all white space, the name filter is skipped and every record is
  kept. For \<^verbatim>\<open>dest=flinders\<close> the answer is the one record \<^verbatim>\<open>PARK001\<close>.
\<close>

theorem parking_by_name:
  "la = None \<and> lo = None \<Longrightarrow>
     parking_handler lower pf num dest la lo radius =
       (if \<forall>c\<in>set (lower (case dest of None \<Rightarrow> [] | Some d \<Rightarrow> d)). is_space c then fixture
        else filter
          (\<lambda>p. \<exists>t. spec_token (lower (case dest of None \<Rightarrow> [] | Some d \<Rightarrow> d)) t \<and>
                  (\<exists>ps ss. lower (js (name p)) = ps @ t @ ss)) fixture)"
  by (simp add: handler_no_coords name_filter_char)

theorem parking_by_name_witness:
  "map lid (parking_handler toLowerCase_ascii (\<lambda>x. None) (\<lambda>x. None) (Some (js ''flinders''))
      None None (Some (js ''50''))) = [''PARK001''] \<and>
   map lid (filter
      (\<lambda>p. \<exists>t. spec_token (toLowerCase_ascii (js ''flinders'')) t \<and>
              (\<exists>ps ss. toLowerCase_ascii (js (name p)) = ps @ t @ ss)) fixture)
     = [''PARK001''] \<and>
   map lid (filter
      (\<lambda>p. \<exists>t. spec_token (toLowerCase_ascii (js ''QV  Southgate'')) t \<and>
              (\<exists>ps ss. toLowerCase_ascii (js (name p)) = ps @ t @ ss)) fixture)
     = [''PARK003'', ''PARK005'']"
proof -
  have a: "\<not> (\<forall>c\<in>set (toLowerCase_ascii (js ''flinders'')). is_space c)"
    using not_blank_flinders by (simp add: list_all_iff)
  have b: "\<not> (\<forall>c\<in>set (toLowerCase_ascii (js ''QV  Southgate'')). is_space c)"
    using not_blank_two_words by (simp add: list_all_iff)
  have 1: "parking_handler toLowerCase_ascii (\<lambda>x. None) (\<lambda>x. None) (Some (js ''flinders''))
             None None (Some (js ''50''))
           = filter
               (\<lambda>p. \<exists>t. spec_token (toLowerCase_ascii (js ''flinders'')) t \<and>
                       (\<exists>ps ss. toLowerCase_ascii (js (name p)) = ps @ t @ ss)) fixture"
    using parking_by_name[of None None toLowerCase_ascii "\<lambda>x. None" "\<lambda>x. None"
        "Some (js ''flinders'')" "Some (js ''50'')"] a
    by simp
  have 2: "parking_handler toLowerCase_ascii (\<lambda>x. None) (\<lambda>x. None)
             (Some (js ''QV  Southgate'')) None None None
           = filter
               (\<lambda>p. \<exists>t. spec_token (toLowerCase_ascii (js ''QV  Southgate'')) t \<and>
                       (\<exists>ps ss. toLowerCase_ascii (js (name p)) = ps @ t @ ss)) fixture"
    using parking_by_name[of None None toLowerCase_ascii "\<lambda>x. None" "\<lambda>x. None"
        "Some (js ''QV  Southgate'')" None] b
    by simp
  have 3: "map lid (parking_handler toLowerCase_ascii (\<lambda>x. None) (\<lambda>x. None)
             (Some (js ''flinders'')) None None (Some (js ''50''))) = [''PARK001'']"
    using name_filter_flinders by (simp add: handler_no_coords)
  have 4: "map lid (parking_handler toLowerCase_ascii (\<lambda>x. None) (\<lambda>x. None)
             (Some (js ''QV  Southgate'')) None None None) = [''PARK003'', ''PARK005'']"
    using name_filter_two_words by (simp add: handler_no_coords)
  from 3 have 5: "map lid (filter
      (\<lambda>p. \<exists>t. spec_token (toLowerCase_ascii (js ''flinders'')) t \<and>
              (\<exists>ps ss. toLowerCase_ascii (js (name p)) = ps @ t @ ss)) fixture)
     = [''PARK001'']"
    unfolding 1 .
  from 4 have 6: "map lid (filter
      (\<lambda>p. \<exists>t. spec_token (toLowerCase_ascii (js ''QV  Southgate'')) t \<and>
              (\<exists>ps ss. toLowerCase_ascii (js (name p)) = ps @ t @ ss)) fixture)
     = [''PARK003'', ''PARK005'']"
    unfolding 2 .
  from 3 5 6 show ?thesis
    by (intro conjI)
qed

text \<open>
  With \<^verbatim>\<open>dest=%20\<close>, one space, the query has no word at all, so no record
  has a word of it in its name; the handler answers with all five records.
\<close>

theorem parking_by_name_counterexample:
  "map lid (parking_handler toLowerCase_ascii (\<lambda>x. None) (\<lambda>x. None) (Some (js '' ''))
      None None None)
     = [''PARK001'', ''PARK002'', ''PARK003'', ''PARK004'', ''PARK005''] \<and>
   filter
      (\<lambda>p. \<exists>t. spec_token (toLowerCase_ascii (js '' '')) t \<and>
              (\<exists>ps ss. toLowerCase_ascii (js (name p)) = ps @ t @ ss)) fixture = []"
proof -
  have "{t. spec_token (toLowerCase_ascii (js '' '')) t} = {}"
    using tokens_spec[of "toLowerCase_ascii (js '' '')"] tokens_blank by simp
  then have "\<not> spec_token (toLowerCase_ascii (js '' '')) t" for t
    by blast
  then have "filter
      (\<lambda>p. \<exists>t. spec_token (toLowerCase_ascii (js '' '')) t \<and>
              (\<exists>ps ss. toLowerCase_ascii (js (name p)) = ps @ t @ ss)) fixture = []"
    by simp
  moreover have "map lid (parking_handler toLowerCase_ascii (\<lambda>x. None) (\<lambda>x. None)
      (Some (js '' '')) None None None)
     = [''PARK001'', ''PARK002'', ''PARK003'', ''PARK004'', ''PARK005'']"
    using name_filter_blank by (simp add: handler_no_coords)
  ultimately show ?thesis
    by (intro conjI)
qed

section \<open>mapBackendParking: results\<close>

text \<open>
  C8. For every wire record, that is, every received record whose
  \<^verbatim>\<open>available_spots\<close> is a number, null or absent (the service's own records
  carry none), \<^verbatim>\<open>available_spots\<close> of the result is
  \<^verbatim>\<open>available_spots ?? available ?? 0\<close>: the record's \<^verbatim>\<open>available_spots\<close> when
  present, otherwise the record's \<^verbatim>\<open>available\<close> when present, otherwise 0. The
  fields \<^verbatim>\<open>id\<close>, \<^verbatim>\<open>name\<close>, \<^verbatim>\<open>lat\<close>, \<^verbatim>\<open>lng\<close> and \<^verbatim>\<open>capacity\<close> are carried over.
\<close>

theorem mapBackendParking_normalizes:
  assumes "wire_record p"
  shows "mapBackendParking now p ''available_spots'' = spec_available_spots p \<and>
    (is_number (p ''available_spots'') \<longrightarrow>
       mapBackendParking now p ''available_spots'' = p ''available_spots'') \<and>
    (\<not> is_number (p ''available_spots'') \<and> p ''available'' \<noteq> JUndefined \<and> p ''available'' \<noteq> JNull
       \<longrightarrow> mapBackendParking now p ''available_spots'' = p ''available'') \<and>
    (\<not> is_number (p ''available_spots'') \<and> (p ''available'' = JUndefined \<or> p ''available'' = JNull)
       \<longrightarrow> mapBackendParking now p ''available_spots'' = JNum 0) \<and>
    mapBackendParking now p ''id'' = p ''id'' \<and>
    mapBackendParking now p ''name'' = p ''name'' \<and>
    mapBackendParking now p ''lat'' = p ''lat'' \<and>
    mapBackendParking now p ''lng'' = p ''lng'' \<and>
    mapBackendParking now p ''capacity'' = p ''capacity''"
  using assms
  by (auto simp: mapBackendParking_def spec_available_spots_def wire_record_def is_number_def
      nullish_def split: jsval.splits)

theorem mapBackendParking_normalizes_witness:
  "wire_record wire_park001 \<and>
   mapBackendParking ''t'' wire_park001 ''available_spots'' = JNum 35 \<and>
   spec_available_spots wire_park001 = JNum 35 \<and>
   mapBackendParking ''t'' wire_park001 ''id'' = JStr ''PARK001'' \<and>
   mapBackendParking ''t'' wire_park001 ''capacity'' = JNum 200 \<and>
   wire_record wire_client \<and>
   mapBackendParking ''t'' wire_client ''available_spots'' = JNum 12 \<and>
   wire_record wire_bare \<and>
   mapBackendParking ''t'' wire_bare ''available_spots'' = JNum 0"
proof -
  have a: "wire_record wire_park001"
    by (simp add: wire_record_def wire_park001_def)
  have b: "wire_record wire_client"
    by (simp add: wire_record_def wire_client_def is_number_def)
  have c: "wire_record wire_bare"
    by (simp add: wire_record_def wire_bare_def)
  from mapBackendParking_normalizes[OF a, of "''t''"]
  have "mapBackendParking ''t'' wire_park001 ''available_spots'' = JNum 35"
    "spec_available_spots wire_park001 = JNum 35"
    "mapBackendParking ''t'' wire_park001 ''id'' = JStr ''PARK001''"
    "mapBackendParking ''t'' wire_park001 ''capacity'' = JNum 200"
    by (simp_all add: wire_park001_def spec_available_spots_def nullish_def)
  moreover from mapBackendParking_normalizes[OF b, of "''t''"]
  have "mapBackendParking ''t'' wire_client ''available_spots'' = JNum 12"
    by (simp add: wire_client_def spec_available_spots_def nullish_def)
  moreover from mapBackendParking_normalizes[OF c, of "''t''"]
  have "mapBackendParking ''t'' wire_bare ''available_spots'' = JNum 0"
    by (simp add: wire_bare_def spec_available_spots_def nullish_def)
  ultimately show ?thesis
    using a b c by (intro conjI)
qed

section \<open>chooseDestination: results\<close>

lemma map_of_fresh:
  "fresh_ids s \<Longrightarrow> issued s \<le> k \<Longrightarrow> map_of (in_flight s) k = None"
  by (force simp: fresh_ids_def list_all_iff map_of_eq_None_iff)

lemma filter_fresh:
  "fresh_ids s \<Longrightarrow> issued s \<le> k \<Longrightarrow> filter (\<lambda>r. fst r \<noteq> k) (in_flight s) = in_flight s"
  by (force simp: fresh_ids_def list_all_iff filter_id_conv)

lemma lid_parkingByDest:
  "map lid (parkingByDest lower now pl) = map lid (name_filter lower (js (name pl)) fixture)"
  by (simp add: parkingByDest_def parking_handler_def radius_filter_def comp_def)

lemma name_filter_flinders_street:
  "map lid (name_filter toLowerCase_ascii (js ''Flinders Street'') fixture) = [''PARK001'']"
  by code_simp

lemma name_filter_southgate:
  "map lid (name_filter toLowerCase_ascii (js ''Southgate'') fixture) = [''PARK005'']"
  by code_simp

lemma length_parkingByDest_flinders: "length (parkingByDest toLowerCase_ascii ''t'' place_flinders) = 1"
proof -
  have "length (map lid (parkingByDest toLowerCase_ascii ''t'' place_flinders)) = 1"
    using name_filter_flinders_street by (simp add: lid_parkingByDest place_flinders_def)
  then show ?thesis
    by simp
qed

lemma length_parkingByDest_southgate: "length (parkingByDest toLowerCase_ascii ''t'' place_southgate) = 1"
proof -
  have "length (map lid (parkingByDest toLowerCase_ascii ''t'' place_southgate)) = 1"
    using name_filter_southgate by (simp add: lid_parkingByDest place_southgate_def)
  then show ?thesis
    by simp
qed

text \<open>
  C4, as the code has it. The function keeps no request token and compares
  nothing when a fetch completes, so every completion is applied. Let resolve
  \<open>a\<close> and then resolve \<open>b\<close> be initiated, in any state, before either fetch
  completes. When both have completed, \<^verbatim>\<open>currentDestination\<close> is \<open>b\<close> and the
  visible snapshot is the one of the resolve whose fetch completed last: that
  of \<open>b\<close> if the fetches complete in the order of the calls, that of \<open>a\<close> if
  the fetch of \<open>b\<close> completes first. The result of the superseded resolve
  \<open>a\<close> is shown when it arrives, also when it arrives first.
\<close>

theorem last_arrival_wins:
  assumes "fresh_ids s"
  shows "visible (run_from fetch s
            [Choose a, Choose b, Arrive (issued s), Arrive (Suc (issued s))])
           = snapshot_for fetch b \<and>
         visible (run_from fetch s
            [Choose a, Choose b, Arrive (Suc (issued s)), Arrive (issued s)])
           = snapshot_for fetch a \<and>
         currentDestination (run_from fetch s
            [Choose a, Choose b, Arrive (issued s), Arrive (Suc (issued s))]) = Some b \<and>
         currentDestination (run_from fetch s
            [Choose a, Choose b, Arrive (Suc (issued s)), Arrive (issued s)]) = Some b \<and>
         visible (run_from fetch s [Choose a, Choose b, Arrive (issued s)])
           = snapshot_for fetch a"
  using map_of_fresh[OF assms, of "issued s"] map_of_fresh[OF assms, of "Suc (issued s)"]
    filter_fresh[OF assms, of "issued s"] filter_fresh[OF assms, of "Suc (issued s)"]
  by (simp add: run_from_def chooseDestination_call_def chooseDestination_resume_def visible_def
      snapshot_for_def Let_def map_add_def)

theorem last_arrival_wins_witness:
  "fresh_ids ui_init \<and>
   visible (run_from (parkingByDest toLowerCase_ascii ''t'') ui_init
      [Choose place_flinders, Choose place_southgate, Arrive 0, Arrive 1])
     = snapshot_for (parkingByDest toLowerCase_ascii ''t'') place_southgate \<and>
   visible (run_from (parkingByDest toLowerCase_ascii ''t'') ui_init
      [Choose place_flinders, Choose place_southgate, Arrive 1, Arrive 0])
     = snapshot_for (parkingByDest toLowerCase_ascii ''t'') place_flinders"
proof -
  have f: "fresh_ids ui_init"
    by (simp add: fresh_ids_def ui_init_def)
  have i: "issued ui_init = 0"
    by (simp add: ui_init_def)
  from last_arrival_wins[OF f, of "parkingByDest toLowerCase_ascii ''t''" place_flinders place_southgate] f
  show ?thesis
    unfolding i by simp
qed

text \<open>
  Against the service: resolve \<^verbatim>\<open>Flinders Street\<close>, then resolve \<^verbatim>\<open>Southgate\<close>,
  and the answer for \<^verbatim>\<open>Southgate\<close> arrives first. The status line ends up
  naming \<^verbatim>\<open>Flinders Street\<close>; the snapshot for \<^verbatim>\<open>Southgate\<close> would name
  \<^verbatim>\<open>Southgate\<close>.
\<close>

theorem resolve_race_counterexample:
  "fst (visible (run (parkingByDest toLowerCase_ascii ''t'')
      [Choose place_flinders, Choose place_southgate, Arrive 1, Arrive 0]))
     = Some (Showing 1 ''Flinders Street'') \<and>
   fst (snapshot_for (parkingByDest toLowerCase_ascii ''t'') place_southgate) = Some (Showing 1 ''Southgate'')"
proof -
  note a = length_parkingByDest_flinders
  note b = length_parkingByDest_southgate
  from a have a': "parkingByDest toLowerCase_ascii ''t'' place_flinders \<noteq> []"
    by auto
  from b have b': "parkingByDest toLowerCase_ascii ''t'' place_southgate \<noteq> []"
    by auto
  show ?thesis
    using a b a' b'
    by (simp add: run_def run_from_def ui_init_def chooseDestination_call_def
        chooseDestination_resume_def visible_def snapshot_for_def Let_def
        place_flinders_def place_southgate_def)
qed

end
